theory Spec2Isabelle
  imports Main "HOL-Library.Word"
begin

section \<open>The consumer of kfc (src/consumer.c)\<close>

text \<open>
  The consumer keeps its state in process-wide variables (\<open>conf\<close>, \<open>stats\<close>,
  \<open>part_eof\<close>, \<open>part_eof_cnt\<close>, \<open>part_eof_thres\<close>) and talks to two libraries:
  the C library (\<open>strtoll\<close>, \<open>fprintf\<close>, \<open>fwrite\<close> on \<open>stdout\<close>) and librdkafka
  (metadata, partition streams, the shared queue). The variables become one record that
  every function takes and returns; the libraries become the small models of the next
  two subsections, which follow ISO C and \<open>rdkafka.h\<close>.
\<close>

subsection \<open>C library: \<open>strtoll\<close> and decimal output\<close>

type_synonym int64 = "64 word"

definition isspace :: "char \<Rightarrow> bool" where
  "isspace c = (c \<in> {CHR '' '', CHR 0x09, CHR 0x0A, CHR 0x0B, CHR 0x0C, CHR 0x0D})"

definition isdigit :: "char \<Rightarrow> bool" where
  "isdigit c = (c \<in> set ''0123456789'')"

definition digit_val :: "char \<Rightarrow> int" where
  "digit_val c = int (of_char c) - 48"

definition LLONG_MAX :: int where
  "LLONG_MAX = 9223372036854775807"

definition LLONG_MIN :: int where
  "LLONG_MIN = - 9223372036854775808"

text \<open>
  \<open>strtoll(s, NULL, 10)\<close>: white space is skipped, one sign is read
  (\<open>strtoll_negative\<close>), then the longest run of decimal digits (\<open>strtoll_digits\<close>); no
  digit at all gives 0, and a value outside \<open>long long\<close> is clamped to \<open>LLONG_MIN\<close> or
  \<open>LLONG_MAX\<close>. The end pointer is \<open>NULL\<close> in every call of
  the consumer, so what follows the digits is never looked at.
\<close>

definition strtoll_negative :: "string \<Rightarrow> bool" where
  "strtoll_negative s =
     (let s1 = dropWhile isspace s in s1 \<noteq> [] \<and> hd s1 = CHR ''-'')"

definition strtoll_digits :: "string \<Rightarrow> string" where
  "strtoll_digits s =
     (let s1 = dropWhile isspace s;
          s2 = (if s1 \<noteq> [] \<and> (hd s1 = CHR ''-'' \<or> hd s1 = CHR ''+'') then tl s1 else s1)
      in takeWhile isdigit s2)"

definition strtoll :: "string \<Rightarrow> int" where
  "strtoll s =
     (let v = foldl (\<lambda>a c. 10 * a + digit_val c) 0 (strtoll_digits s);
          r = (if strtoll_negative s then - v else v)
      in max LLONG_MIN (min LLONG_MAX r))"

text \<open>The conversion \<open>%PRId64\<close> of \<open>fprintf\<close>: a signed decimal numeral.\<close>

fun dec_nat :: "nat \<Rightarrow> string" where
  "dec_nat n =
     (if n < 10 then [''0123456789'' ! n]
      else dec_nat (n div 10) @ [''0123456789'' ! (n mod 10)])"

declare dec_nat.simps [simp del]

definition dec_int :: "int \<Rightarrow> string" where
  "dec_int i = (if i < 0 then CHR ''-'' # dec_nat (nat (- i)) else dec_nat (nat i))"

subsection \<open>C library: the output stream\<close>

text \<open>
  \<open>stdout\<close> is the bytes that have reached it and a script of what the coming output
  calls will meet: each call takes the head of the script, a call on an exhausted script
  succeeds. \<open>IoFail k\<close> is a short write or an I/O error after \<open>k\<close> bytes.
\<close>

datatype io_outcome = IoOk | IoFail nat

record FILE =
  written :: string
  script :: "io_outcome list"

definition put_bytes :: "string \<Rightarrow> FILE \<Rightarrow> bool \<times> FILE" where
  "put_bytes buf fp =
     (case script fp of
        [] \<Rightarrow> (True, fp\<lparr>written := written fp @ buf\<rparr>)
      | IoOk # rest \<Rightarrow> (True, fp\<lparr>written := written fp @ buf, script := rest\<rparr>)
      | IoFail k # rest \<Rightarrow> (False, fp\<lparr>written := written fp @ take k buf, script := rest\<rparr>))"

text \<open>
  \<open>fprintf(fp, "%"PRId64"%c", offset, c)\<close> and \<open>fprintf(fp, "%.*s%c", len, key, c)\<close>.
  The result is the stream and whether the call succeeded (a negative return value in C
  is \<open>False\<close>). \<open>%.*s\<close> prints at most \<open>len\<close> bytes of the key and stops at a NUL byte.
\<close>

definition fprintf_offset :: "int64 \<Rightarrow> char \<Rightarrow> FILE \<Rightarrow> bool \<times> FILE" where
  "fprintf_offset off c fp = put_bytes (dec_int (sint off) @ [c]) fp"

definition fprintf_key :: "string \<Rightarrow> char \<Rightarrow> FILE \<Rightarrow> bool \<times> FILE" where
  "fprintf_key k c fp =
     put_bytes (takeWhile (\<lambda>b. b \<noteq> CHR 0x00) (take (length k) k) @ [c]) fp"

text \<open>
  \<open>fwrite(buf, size, 1, fp)\<close> with \<open>size = length buf\<close>: the number of elements written,
  1 or 0. ISO C 7.21.8.2: if \<open>size\<close> is zero, \<open>fwrite\<close> returns zero and the stream is
  unchanged.
\<close>

definition fwrite :: "string \<Rightarrow> FILE \<Rightarrow> nat \<times> FILE" where
  "fwrite buf fp =
     (if length buf = 0 then (0, fp)
      else (case put_bytes buf fp of (ok, fp') \<Rightarrow> (if ok then 1 else 0, fp')))"

subsection \<open>librdkafka: constants and data\<close>

text \<open>The logical offsets and the other constants of \<open>rdkafka.h\<close>.\<close>

definition RD_KAFKA_OFFSET_BEGINNING :: int64 where
  "RD_KAFKA_OFFSET_BEGINNING = - 2"

definition RD_KAFKA_OFFSET_END :: int64 where
  "RD_KAFKA_OFFSET_END = - 1"

definition RD_KAFKA_OFFSET_STORED :: int64 where
  "RD_KAFKA_OFFSET_STORED = - 1000"

definition RD_KAFKA_OFFSET_TAIL_BASE :: int64 where
  "RD_KAFKA_OFFSET_TAIL_BASE = - 2000"

definition RD_KAFKA_OFFSET_TAIL :: "int64 \<Rightarrow> int64" where
  "RD_KAFKA_OFFSET_TAIL cnt = RD_KAFKA_OFFSET_TAIL_BASE - cnt"

definition RD_KAFKA_PARTITION_UA :: int where
  "RD_KAFKA_PARTITION_UA = - 1"

definition RD_KAFKA_RESP_ERR__PARTITION_EOF :: int where
  "RD_KAFKA_RESP_ERR__PARTITION_EOF = - 191"

text \<open>\<open>rd_kafka_message_t\<close>: \<open>err\<close> is 0 for a message that carries data.\<close>

record rd_kafka_message =
  err :: int
  partition :: int
  offset :: int64
  key :: string
  payload :: string

text \<open>
  \<open>struct rd_kafka_metadata\<close>, as far as the consumer reads it: \<open>topic_cnt\<close> is the
  length of \<open>topics\<close>, \<open>partition_cnt\<close> the length of \<open>partitions\<close>, the list of the
  partitions' ids.
\<close>

record rd_kafka_metadata_topic =
  topic_err :: int
  partitions :: "int list"

record rd_kafka_metadata =
  topics :: "rd_kafka_metadata_topic list"

text \<open>
  What a start offset stands for in librdkafka: the spec's offset directive. The tail
  offsets lie at and below \<open>RD_KAFKA_OFFSET_TAIL_BASE\<close>.
\<close>

datatype OffsetDirective = Earliest | Latest | Stored | Absolute int | TailRelative int

definition directive_of :: "int64 \<Rightarrow> OffsetDirective option" where
  "directive_of off =
     (if off = RD_KAFKA_OFFSET_END then Some Latest
      else if off = RD_KAFKA_OFFSET_BEGINNING then Some Earliest
      else if off = RD_KAFKA_OFFSET_STORED then Some Stored
      else if sint off \<le> sint RD_KAFKA_OFFSET_TAIL_BASE
        then Some (TailRelative (sint RD_KAFKA_OFFSET_TAIL_BASE - sint off))
      else if 0 \<le> sint off then Some (Absolute (sint off))
      else None)"

subsection \<open>The configuration and the state\<close>

text \<open>
  \<open>conf\<close> after \<open>consumer_argparse\<close>, without \<open>conf.run\<close>, which the consumer writes
  and which is therefore a field of the state. \<open>common.h\<close> is not among the sources: the
  flag bits are a set of names, \<open>msg_cnt\<close> and \<open>stats.rx\<close> are 64-bit (\<open>msg_cnt\<close> is
  assigned from \<open>strtoll\<close>), the delimiters are the byte that is written.
\<close>

datatype conf_flag = CONF_F_KEY_DELIM | CONF_F_OFFSET

record conf =
  conf_partition :: int
  delim :: char
  key_delim :: char
  flags :: "conf_flag set"
  msg_cnt :: int64
  conf_offset :: int64
  exit_eof :: bool
  exitcode :: int

record state =
  run :: bool
  part_eof :: "int list"
  part_eof_cnt :: int
  part_eof_thres :: int
  rx :: int64
  stdout :: FILE
  streams :: "(int \<times> int64) list"

text \<open>
  The conditions under which the consumer calls \<open>FATAL\<close>, and one more value for an
  access outside \<open>part_eof\<close>, which C leaves undefined.
\<close>

datatype error =
    MetadataQueryFailed int
  | TopicNotFound
  | TopicError int
  | NoPartitions
  | StartFailed int
  | PartitionNotFound int int int
  | StreamError int int
  | WriteError nat int64
  | OutOfBounds int

subsection \<open>\<open>consumer_argparse\<close>, option \<open>-o\<close>\<close>

text \<open>
  \<open>case 'o'\<close> of the option switch (lines 82 to 94): the value that is stored in
  \<open>conf.offset\<close>. \<open>strcmp\<close> on the argument is equality of strings; the negation and
  the subtraction in \<open>RD_KAFKA_OFFSET_TAIL\<close> are those of \<open>int64_t\<close>, which wrap.
\<close>

definition consumer_argparse_o :: "string \<Rightarrow> int64" where
  "consumer_argparse_o optarg =
     (if optarg = ''end'' then RD_KAFKA_OFFSET_END
      else if optarg = ''beginning'' then RD_KAFKA_OFFSET_BEGINNING
      else if optarg = ''stored'' then RD_KAFKA_OFFSET_STORED
      else (let off = (word_of_int (strtoll optarg) :: int64)
            in if sint off < 0 then RD_KAFKA_OFFSET_TAIL (- off) else off))"

subsection \<open>\<open>consume_cb\<close>\<close>

text \<open>
  Lines 188 to 240. \<open>Inr s\<close> is the return of the callback with the variables as in
  \<open>s\<close>; \<open>Inl (e, s)\<close> is \<open>FATAL\<close> called for \<open>e\<close> with the variables as in \<open>s\<close>: the
  code after a \<open>FATAL\<close> relies on its not returning. \<open>part_eof\<close> has as many elements as
  \<open>calloc\<close> was asked for, and an index outside of it is \<open>OutOfBounds\<close>. The key is a
  list of \<open>key_len\<close> bytes, the payload one of \<open>len\<close> bytes. \<open>INFO\<close> writes to the log
  only and is left out.
\<close>

definition consume_cb :: "conf \<Rightarrow> rd_kafka_message \<Rightarrow> state \<Rightarrow> (error \<times> state) + state" where
  "consume_cb cf rkmessage s =
     (if \<not> run s then Inr s
      else if err rkmessage \<noteq> 0 then
        (if err rkmessage = RD_KAFKA_RESP_ERR__PARTITION_EOF then
           (if exit_eof cf then
              (let p = partition rkmessage in
               if p < 0 \<or> int (length (part_eof s)) \<le> p then Inl (OutOfBounds p, s)
               else if part_eof s ! nat p = 0 then
                 (let s1 = s\<lparr>part_eof := (part_eof s)[nat p := 1],
                              part_eof_cnt := part_eof_cnt s + 1\<rparr>
                  in Inr (if part_eof_thres s1 \<le> part_eof_cnt s1 then s1\<lparr>run := False\<rparr> else s1))
               else Inr s)
            else Inr s)
         else Inl (StreamError (partition rkmessage) (err rkmessage), s))
      else
        (let fp1 = (if CONF_F_OFFSET \<in> flags cf
                    then snd (fprintf_offset (offset rkmessage) (key_delim cf) (stdout s))
                    else stdout s);
             fp2 = (if CONF_F_KEY_DELIM \<in> flags cf
                    then snd (fprintf_key (key rkmessage) (key_delim cf) fp1)
                    else fp1);
             (n1, fp3) = fwrite (payload rkmessage) fp2
         in if n1 \<noteq> 1
            then Inl (WriteError (length (payload rkmessage)) (offset rkmessage), s\<lparr>stdout := fp3\<rparr>)
            else
              (let (n2, fp4) = fwrite [delim cf] fp3
               in if n2 \<noteq> 1
                  then Inl (WriteError (length (payload rkmessage)) (offset rkmessage),
                            s\<lparr>stdout := fp4\<rparr>)
                  else
                    (let s1 = s\<lparr>stdout := fp4, rx := rx s + 1\<rparr>
                     in Inr (if rx s1 = msg_cnt cf then s1\<lparr>run := False\<rparr> else s1)))))"

subsection \<open>\<open>consumer_main\<close>\<close>

text \<open>
  \<open>rd_kafka_consume_callback_queue\<close> hands every message of one poll to the callback.
\<close>

fun rd_kafka_consume_callback_queue ::
  "conf \<Rightarrow> rd_kafka_message list \<Rightarrow> state \<Rightarrow> (error \<times> state) + state" where
  "rd_kafka_consume_callback_queue cf [] s = Inr s"
| "rd_kafka_consume_callback_queue cf (m # ms) s =
     (case consume_cb cf m s of
        Inl e \<Rightarrow> Inl e
      | Inr s' \<Rightarrow> rd_kafka_consume_callback_queue cf ms s')"

text \<open>
  \<open>while (conf.run) rd_kafka_consume_callback_queue(...)\<close> (lines 317 to 320) over the
  polls that are still to come. When they are used up the state is returned as it is: with \<open>run\<close> still set
  the loop has not ended.
\<close>

fun consume_loop ::
  "conf \<Rightarrow> rd_kafka_message list list \<Rightarrow> state \<Rightarrow> (error \<times> state) + state" where
  "consume_loop cf [] s = Inr s"
| "consume_loop cf (b # bs) s =
     (if run s then
        (case rd_kafka_consume_callback_queue cf b s of
           Inl e \<Rightarrow> Inl e
         | Inr s' \<Rightarrow> consume_loop cf bs s')
      else Inr s)"

text \<open>
  The loop that starts the consumers (lines 286 to 305), over the partitions from index
  \<open>i\<close> on. A started consumer is a stream, kept with the offset it was started at.
  \<open>start_ok\<close> tells for which partitions \<open>rd_kafka_consume_start_queue\<close> succeeds. The
  result carries the value of \<open>i\<close> at the end of the loop.
\<close>

fun start_loop ::
  "conf \<Rightarrow> (int \<Rightarrow> bool) \<Rightarrow> int list \<Rightarrow> nat \<Rightarrow> state \<Rightarrow> (error \<times> state) + (nat \<times> state)" where
  "start_loop cf start_ok [] i s = Inr (i, s)"
| "start_loop cf start_ok (p # ps) i s =
     (if conf_partition cf \<noteq> RD_KAFKA_PARTITION_UA \<and> conf_partition cf \<noteq> p
      then start_loop cf start_ok ps (Suc i) s
      else if \<not> start_ok p then Inl (StartFailed p, s)
      else
        (let s' = s\<lparr>streams := streams s @ [(p, conf_offset cf)]\<rparr>
         in if conf_partition cf \<noteq> RD_KAFKA_PARTITION_UA then Inr (i, s')
            else start_loop cf start_ok ps (Suc i) s'))"

text \<open>
  The loop that stops them (lines 322 to 332): \<open>rd_kafka_consume_stop\<close> ends the stream
  of a partition.
\<close>

definition rd_kafka_consume_stop :: "int \<Rightarrow> state \<Rightarrow> state" where
  "rd_kafka_consume_stop p s = s\<lparr>streams := filter (\<lambda>st. fst st \<noteq> p) (streams s)\<rparr>"

fun stop_loop :: "conf \<Rightarrow> int list \<Rightarrow> state \<Rightarrow> state" where
  "stop_loop cf [] s = s"
| "stop_loop cf (p # ps) s =
     (if conf_partition cf \<noteq> RD_KAFKA_PARTITION_UA \<and> conf_partition cf \<noteq> p
      then stop_loop cf ps s
      else stop_loop cf ps (rd_kafka_consume_stop p s))"

text \<open>
  The set-up of the EOF tracking in \<open>consumer_main\<close> (lines 270 to 280) for a topic of
  \<open>partition_cnt\<close> partitions: \<open>calloc\<close> gives an array of zeros.
\<close>

definition part_eof_setup :: "conf \<Rightarrow> nat \<Rightarrow> state \<Rightarrow> state" where
  "part_eof_setup cf partition_cnt s =
     (if exit_eof cf
      then s\<lparr>part_eof := replicate partition_cnt 0,
             part_eof_thres :=
               (if conf_partition cf \<noteq> RD_KAFKA_PARTITION_UA then 1 else int partition_cnt)\<rparr>
      else s)"

text \<open>
  \<open>consumer_main\<close> (lines 242 to 338) after \<open>consumer_argparse\<close> and
  \<open>kfc_rdkafka_init\<close>. Its inputs from
  outside are the answer to the metadata request (an error code or the metadata), the
  partitions whose consumer can be started, and the polls. It ends in a call of \<open>FATAL\<close>,
  or returns \<open>conf.exitcode\<close>, or is still polling when the given polls are used up.
\<close>

datatype outcome = Fatal error state | Returned int state | Polling state

definition consumer_main ::
  "conf \<Rightarrow> int + rd_kafka_metadata \<Rightarrow> (int \<Rightarrow> bool) \<Rightarrow> rd_kafka_message list list \<Rightarrow> state \<Rightarrow> outcome" where
  "consumer_main cf answer start_ok polls s =
     (case answer of
        Inl e \<Rightarrow> Fatal (MetadataQueryFailed e) s
      | Inr metadata \<Rightarrow>
          if topics metadata = [] then Fatal TopicNotFound s
          else
            (let t = hd (topics metadata) in
             if topic_err t \<noteq> 0 then Fatal (TopicError (topic_err t)) s
             else if partitions t = [] then Fatal NoPartitions s
             else
               (let s1 = part_eof_setup cf (length (partitions t)) s
                in case start_loop cf start_ok (partitions t) 0 s1 of
                     Inl (e, s2) \<Rightarrow> Fatal e s2
                   | Inr (i, s2) \<Rightarrow>
                       if conf_partition cf \<noteq> RD_KAFKA_PARTITION_UA \<and> i = length (partitions t)
                       then Fatal (PartitionNotFound 0 (int (length (partitions t)) - 1)
                                     (conf_partition cf)) s2
                       else
                         (case consume_loop cf polls s2 of
                            Inl (e, s3) \<Rightarrow> Fatal e s3
                          | Inr s3 \<Rightarrow>
                              if run s3 then Polling s3
                              else Returned (exitcode cf) (stop_loop cf (partitions t) s3)))))"

text \<open>
  The variables when \<open>consumer_main\<close> is entered: the three EOF variables as
  \<open>consumer.c\<close> initialises them, \<open>conf.run\<close> set, nothing received, no stream open.
\<close>

definition init_state :: "FILE \<Rightarrow> state" where
  "init_state fp =
     \<lparr>run = True, part_eof = [], part_eof_cnt = 0, part_eof_thres = 0, rx = 0,
      stdout = fp, streams = []\<rparr>"

subsection \<open>Notions for the properties\<close>

text \<open>The number of partitions whose flag in \<open>part_eof\<close> is set.\<close>

definition flags_set :: "int list \<Rightarrow> nat" where
  "flags_set xs = length (filter (\<lambda>x. x \<noteq> 0) xs)"

text \<open>
  What holds of the EOF variables throughout a run with \<open>exit_eof\<close> on a topic of \<open>n\<close>
  partitions.
\<close>

definition eof_inv :: "conf \<Rightarrow> nat \<Rightarrow> state \<Rightarrow> bool" where
  "eof_inv cf n s \<longleftrightarrow>
     length (part_eof s) = n \<and>
     part_eof_thres s = (if conf_partition cf \<noteq> RD_KAFKA_PARTITION_UA then 1 else int n) \<and>
     part_eof_cnt s = int (flags_set (part_eof s)) \<and>
     part_eof_cnt s \<le> part_eof_thres s \<and>
     (run s \<longrightarrow> part_eof_cnt s < part_eof_thres s)"

text \<open>How the EOF variables of a later state relate to those of an earlier one.\<close>

definition eof_later :: "state \<Rightarrow> state \<Rightarrow> bool" where
  "eof_later s s' \<longleftrightarrow>
     length (part_eof s') = length (part_eof s) \<and>
     (\<forall>p < length (part_eof s).
        part_eof s' ! p = part_eof s ! p \<or> (part_eof s ! p = 0 \<and> part_eof s' ! p = 1)) \<and>
     part_eof_cnt s \<le> part_eof_cnt s'"

text \<open>
  The text of one record as the spec composes it: the offset and the key, each followed
  by the key delimiter and each only if asked for, the payload, the record delimiter.
\<close>

definition record_text :: "conf \<Rightarrow> rd_kafka_message \<Rightarrow> string" where
  "record_text cf m =
     (if CONF_F_OFFSET \<in> flags cf then dec_int (sint (offset m)) @ [key_delim cf] else []) @
     (if CONF_F_KEY_DELIM \<in> flags cf then key m @ [key_delim cf] else []) @
     payload m @ [delim cf]"

text \<open>A data message with a payload of at least one byte and a key without NUL byte.\<close>

definition plain_data :: "rd_kafka_message \<Rightarrow> bool" where
  "plain_data m \<longleftrightarrow> err m = 0 \<and> payload m \<noteq> [] \<and> CHR 0x00 \<notin> set (key m)"


subsection \<open>The end of the process\<close>



subsection \<open>Example inputs\<close>

definition example_conf :: conf where
  "example_conf =
     \<lparr>conf_partition = RD_KAFKA_PARTITION_UA, delim = CHR 0x0A, key_delim = CHR 0x09,
      flags = {}, msg_cnt = 0, conf_offset = RD_KAFKA_OFFSET_BEGINNING, exit_eof = True,
      exitcode = 0\<rparr>"

definition example_stdout :: FILE where
  "example_stdout = \<lparr>written = [], script = []\<rparr>"

definition eof_message :: "int \<Rightarrow> int64 \<Rightarrow> rd_kafka_message" where
  "eof_message p off =
     \<lparr>err = RD_KAFKA_RESP_ERR__PARTITION_EOF, partition = p, offset = off, key = [],
      payload = []\<rparr>"

definition data_message :: "int \<Rightarrow> int64 \<Rightarrow> string \<Rightarrow> string \<Rightarrow> rd_kafka_message" where
  "data_message p off k v = \<lparr>err = 0, partition = p, offset = off, key = k, payload = v\<rparr>"

definition example_started :: state where
  "example_started =
     \<lparr>run = True, part_eof = [0, 0, 0], part_eof_cnt = 0, part_eof_thres = 3, rx = 0,
      stdout = example_stdout,
      streams = [(0, RD_KAFKA_OFFSET_BEGINNING), (1, RD_KAFKA_OFFSET_BEGINNING),
                 (2, RD_KAFKA_OFFSET_BEGINNING)]\<rparr>"

definition example_started_p :: state where
  "example_started_p =
     \<lparr>run = True, part_eof = [0, 0, 0], part_eof_cnt = 0, part_eof_thres = 1, rx = 0,
      stdout = example_stdout, streams = [(1, RD_KAFKA_OFFSET_BEGINNING)]\<rparr>"

definition example_metadata :: rd_kafka_metadata where
  "example_metadata = \<lparr>topics = [\<lparr>topic_err = 0, partitions = [0, 1, 2]\<rparr>]\<rparr>"


section \<open>Properties\<close>

subsection \<open>The callback, by kind of message\<close>

lemma consume_cb_stopped: "\<not> run s \<Longrightarrow> consume_cb cf m s = Inr s"
  by (simp add: consume_cb_def)

lemma consume_cb_eof:
  assumes "run s" and "err m = RD_KAFKA_RESP_ERR__PARTITION_EOF" and "exit_eof cf"
  shows "consume_cb cf m s =
     (let p = partition m in
      if p < 0 \<or> int (length (part_eof s)) \<le> p then Inl (OutOfBounds p, s)
      else if part_eof s ! nat p = 0 then
        (let s1 = s\<lparr>part_eof := (part_eof s)[nat p := 1], part_eof_cnt := part_eof_cnt s + 1\<rparr>
         in Inr (if part_eof_thres s1 \<le> part_eof_cnt s1 then s1\<lparr>run := False\<rparr> else s1))
      else Inr s)"
  using assms by (simp add: consume_cb_def RD_KAFKA_RESP_ERR__PARTITION_EOF_def)

lemma consume_cb_eof_marks:
  assumes "run s" and "err m = RD_KAFKA_RESP_ERR__PARTITION_EOF" and "exit_eof cf"
    and "0 \<le> partition m" and "partition m < int (length (part_eof s))"
  shows "consume_cb cf m s =
     Inr (if part_eof s ! nat (partition m) = 0
          then s\<lparr>part_eof := (part_eof s)[nat (partition m) := 1],
                 part_eof_cnt := part_eof_cnt s + 1,
                 run := (part_eof_cnt s + 1 < part_eof_thres s)\<rparr>
          else s)"
proof -
  have "s\<lparr>part_eof := xs, part_eof_cnt := c\<rparr> = s\<lparr>part_eof := xs, part_eof_cnt := c, run := True\<rparr>"
    for xs c
    using assms(1) by (cases s) simp
  with assms show ?thesis
    unfolding consume_cb_eof[OF assms(1-3)]
    by (simp add: Let_def not_le)
qed

lemma consume_cb_eof_off:
  assumes "err m = RD_KAFKA_RESP_ERR__PARTITION_EOF" and "\<not> exit_eof cf"
  shows "consume_cb cf m s = Inr s"
  using assms by (simp add: consume_cb_def RD_KAFKA_RESP_ERR__PARTITION_EOF_def)

lemma consume_cb_error:
  assumes "run s" and "err m \<noteq> 0" and "err m \<noteq> RD_KAFKA_RESP_ERR__PARTITION_EOF"
  shows "consume_cb cf m s = Inl (StreamError (partition m) (err m), s)"
  using assms by (simp add: consume_cb_def)

lemma consume_cb_data:
  assumes "run s" and "err m = 0" and "consume_cb cf m s = Inr s'"
  shows "part_eof s' = part_eof s" and "part_eof_cnt s' = part_eof_cnt s"
    and "part_eof_thres s' = part_eof_thres s" and "streams s' = streams s"
    and "rx s' = rx s + 1" and "run s' = (rx s + 1 \<noteq> msg_cnt cf)"
  using assms
  by (auto simp: consume_cb_def Let_def split: if_splits prod.splits)

lemma consume_cb_streams:
  assumes "consume_cb cf m s = Inr s'"
  shows "streams s' = streams s"
proof (cases "run s")
  case False
  with assms show ?thesis by (simp add: consume_cb_stopped)
next
  case True
  consider (data) "err m = 0"
    | (eof) "err m = RD_KAFKA_RESP_ERR__PARTITION_EOF" "exit_eof cf"
    | (eof_off) "err m = RD_KAFKA_RESP_ERR__PARTITION_EOF" "\<not> exit_eof cf"
    | (other) "err m \<noteq> 0" "err m \<noteq> RD_KAFKA_RESP_ERR__PARTITION_EOF"
    by blast
  then show ?thesis
  proof cases
    case data
    from consume_cb_data[OF True data assms] show ?thesis by simp
  next
    case eof
    from assms show ?thesis
      unfolding consume_cb_eof[OF True eof]
      by (auto simp: Let_def split: if_splits)
  next
    case eof_off
    with assms show ?thesis by (simp add: consume_cb_eof_off)
  next
    case other
    with assms True show ?thesis by (simp add: consume_cb_error)
  qed
qed

subsection \<open>The polls\<close>

lemma callback_queue_stopped: "\<not> run s \<Longrightarrow> rd_kafka_consume_callback_queue cf ms s = Inr s"
  by (induction ms) (simp_all add: consume_cb_stopped)

lemma consume_loop_stopped: "\<not> run s \<Longrightarrow> consume_loop cf polls s = Inr s"
  by (cases polls) simp_all

lemma callback_queue_append:
  "rd_kafka_consume_callback_queue cf (xs @ ys) s =
     (case rd_kafka_consume_callback_queue cf xs s of
        Inl e \<Rightarrow> Inl e
      | Inr s' \<Rightarrow> rd_kafka_consume_callback_queue cf ys s')"
  by (induction xs arbitrary: s) (simp_all split: sum.splits)


lemma callback_queue_streams:
  "rd_kafka_consume_callback_queue cf ms s = Inr s' \<Longrightarrow> streams s' = streams s"
proof (induction ms arbitrary: s)
  case Nil
  then show ?case by simp
next
  case (Cons m ms)
  then show ?case
    by (auto split: sum.splits dest: consume_cb_streams)
qed

subsection \<open>The start loop\<close>

lemma start_loop_fields:
  "start_loop cf start_ok ps i s = Inr (j, s') \<Longrightarrow>
     run s' = run s \<and> part_eof s' = part_eof s \<and> part_eof_cnt s' = part_eof_cnt s \<and>
     part_eof_thres s' = part_eof_thres s \<and> rx s' = rx s \<and> stdout s' = stdout s"
proof (induction ps arbitrary: i s)
  case Nil
  then show ?case by simp
next
  case (Cons p ps)
  then show ?case
    by (auto simp: Let_def split: if_splits)
qed

lemma start_loop_absent:
  assumes "conf_partition cf \<noteq> RD_KAFKA_PARTITION_UA" and "conf_partition cf \<notin> set ps"
  shows "start_loop cf start_ok ps i s = Inr (i + length ps, s)"
  using assms by (induction ps arbitrary: i) simp_all

lemma start_loop_present:
  assumes "conf_partition cf \<noteq> RD_KAFKA_PARTITION_UA" and "conf_partition cf \<in> set ps"
    and "start_loop cf start_ok ps i s = Inr (j, s')"
  shows "j < i + length ps"
  using assms
proof (induction ps arbitrary: i)
  case Nil
  then show ?case by simp
next
  case (Cons p ps)
  show ?case
  proof (cases "conf_partition cf = p")
    case True
    with Cons.prems show ?thesis
      by (auto simp: Let_def split: if_splits)
  next
    case False
    with Cons.prems have "conf_partition cf \<in> set ps"
      and "start_loop cf start_ok ps (Suc i) s = Inr (j, s')"
      by simp_all
    with Cons.IH[OF Cons.prems(1)] show ?thesis by fastforce
  qed
qed

lemma start_loop_streams:
  "start_loop cf start_ok ps i s = Inr (j, s') \<Longrightarrow>
     streams s' = streams s @
       map (\<lambda>p. (p, conf_offset cf))
         (if conf_partition cf = RD_KAFKA_PARTITION_UA then ps
          else take 1 (filter (\<lambda>p. p = conf_partition cf) ps))"
proof (induction ps arbitrary: i s)
  case Nil
  then show ?case by simp
next
  case (Cons p ps)
  then show ?case
    by (auto simp: Let_def split: if_splits)
qed

lemma start_loop_selected:
  assumes "start_loop cf start_ok ps 0 s = Inr (i, s2)" and "streams s = []"
    and "conf_partition cf = RD_KAFKA_PARTITION_UA \<or> i \<noteq> length ps"
  shows "length (streams s2) = (if conf_partition cf = RD_KAFKA_PARTITION_UA then length ps else 1)"
proof (cases "conf_partition cf = RD_KAFKA_PARTITION_UA")
  case True
  with start_loop_streams[OF assms(1)] assms(2) show ?thesis by simp
next
  case False
  have "conf_partition cf \<in> set ps"
  proof (rule ccontr)
    assume "conf_partition cf \<notin> set ps"
    with False have "start_loop cf start_ok ps 0 s = Inr (0 + length ps, s)"
      by (rule start_loop_absent)
    with assms(1,3) False show False by simp
  qed
  then have "filter (\<lambda>p. p = conf_partition cf) ps \<noteq> []"
    by (auto simp: filter_empty_conv)
  then have "length (take 1 (filter (\<lambda>p. p = conf_partition cf) ps)) = 1"
    by (cases "filter (\<lambda>p. p = conf_partition cf) ps") simp_all
  with start_loop_streams[OF assms(1)] assms(2) False show ?thesis by simp
qed


subsection \<open>End-of-partition tracking\<close>

lemma flags_set_update:
  "p < length xs \<Longrightarrow> xs ! p = 0 \<Longrightarrow> flags_set (xs[p := 1]) = Suc (flags_set xs)"
proof (induction xs arbitrary: p)
  case Nil
  then show ?case by simp
next
  case (Cons x xs)
  then show ?case
    by (cases p) (simp_all add: flags_set_def)
qed

lemma flags_set_le: "flags_set xs \<le> length xs"
  by (simp add: flags_set_def)

lemma eof_inv_step:
  assumes "exit_eof cf" and "eof_inv cf n s" and "consume_cb cf m s = Inr s'"
  shows "eof_inv cf n s'"
proof (cases "run s")
  case False
  with assms show ?thesis by (simp add: consume_cb_stopped)
next
  case True
  consider (data) "err m = 0" | (eof) "err m = RD_KAFKA_RESP_ERR__PARTITION_EOF"
    | (other) "err m \<noteq> 0" "err m \<noteq> RD_KAFKA_RESP_ERR__PARTITION_EOF"
    by blast
  then show ?thesis
  proof cases
    case data
    from consume_cb_data[OF True data assms(3)] assms(2) True show ?thesis
      by (simp add: eof_inv_def)
  next
    case eof
    from assms(3) assms(2) True show ?thesis
      unfolding consume_cb_eof[OF True eof assms(1)]
      by (auto simp: eof_inv_def Let_def flags_set_update split: if_splits)
  next
    case other
    with assms(3) True show ?thesis by (simp add: consume_cb_error)
  qed
qed

lemma eof_inv_queue:
  assumes "exit_eof cf"
  shows "eof_inv cf n s \<Longrightarrow> rd_kafka_consume_callback_queue cf ms s = Inr s' \<Longrightarrow> eof_inv cf n s'"
proof (induction ms arbitrary: s)
  case Nil
  then show ?case by simp
next
  case (Cons m ms)
  then show ?case
    by (auto split: sum.splits dest: eof_inv_step[OF assms])
qed

lemma eof_inv_start:
  assumes "exit_eof cf" and "ps \<noteq> []"
    and "start_loop cf start_ok ps 0 (part_eof_setup cf (length ps) (init_state fp)) = Inr (i, s2)"
  shows "eof_inv cf (length ps) s2"
  using start_loop_fields[OF assms(3)] assms(1,2)
  by (simp add: eof_inv_def part_eof_setup_def init_state_def flags_set_def)

lemma example_start:
  "start_loop example_conf (\<lambda>p. True) [0, 1, 2] 0
     (part_eof_setup example_conf (length [0, 1, 2 :: int]) (init_state example_stdout)) =
   Inr (3, example_started)"
  by (simp add: example_conf_def part_eof_setup_def init_state_def example_started_def
      RD_KAFKA_PARTITION_UA_def numeral_3_eq_3)

lemma example_start_p:
  "start_loop (example_conf\<lparr>conf_partition := 1\<rparr>) (\<lambda>p. True) [0, 1, 2] 0
     (part_eof_setup (example_conf\<lparr>conf_partition := 1\<rparr>) (length [0, 1, 2 :: int])
        (init_state example_stdout)) =
   Inr (1, example_started_p)"
  by (simp add: example_conf_def part_eof_setup_def init_state_def example_started_p_def
      RD_KAFKA_PARTITION_UA_def)

lemma example_nothing_yet:
  "rd_kafka_consume_callback_queue cf [] s = Inr s"
  by simp

lemma example_two_eofs:
  "rd_kafka_consume_callback_queue example_conf
     [eof_message 2 7, eof_message 0 4, eof_message 2 7] example_started =
   Inr (example_started\<lparr>part_eof := [1, 0, 1], part_eof_cnt := 2\<rparr>)"
  by (simp add: consume_cb_def example_conf_def example_started_def eof_message_def
      RD_KAFKA_RESP_ERR__PARTITION_EOF_def Let_def)

lemma example_third_eof:
  "consume_cb example_conf (eof_message 1 9)
     (example_started\<lparr>part_eof := [1, 0, 1], part_eof_cnt := 2\<rparr>) =
   Inr (example_started\<lparr>part_eof := [1, 1, 1], part_eof_cnt := 3, run := False\<rparr>)"
  by (simp add: consume_cb_def example_conf_def example_started_def eof_message_def
      RD_KAFKA_RESP_ERR__PARTITION_EOF_def Let_def)

text \<open>
  C1. In a run with \<open>exit_eof\<close>, after any messages: the threshold is 1 if a partition
  was chosen with \<open>-p\<close> and the number of partitions of the topic otherwise,
  \<open>part_eof_cnt\<close> is the number of partitions whose flag is set, and a run that goes on
  has its count below the threshold. An EOF message of partition \<open>p\<close> then does this
  and nothing else: if the run goes on and the flag of \<open>p\<close> is not set, the flag of \<open>p\<close>
  is set, the count goes up by one and the run goes on exactly if the new count is below
  the threshold; otherwise the state stays as it is. So the run is stopped by an EOF
  exactly when the count goes from below the threshold to the threshold.
\<close>

theorem eof_threshold_stops_run:
  assumes "exit_eof cf" and "ps \<noteq> []"
    and "start_loop cf start_ok ps 0 (part_eof_setup cf (length ps) (init_state fp)) = Inr (i, s2)"
    and "rd_kafka_consume_callback_queue cf ms s2 = Inr s"
    and "err m = RD_KAFKA_RESP_ERR__PARTITION_EOF"
    and "0 \<le> partition m" and "partition m < int (length ps)"
  shows "part_eof_thres s =
           (if conf_partition cf \<noteq> RD_KAFKA_PARTITION_UA then 1 else int (length ps)) \<and>
         length (part_eof s) = length ps \<and>
         part_eof_cnt s = int (flags_set (part_eof s)) \<and>
         (run s \<longrightarrow> part_eof_cnt s < part_eof_thres s) \<and>
         consume_cb cf m s =
           Inr (if run s \<and> part_eof s ! nat (partition m) = 0
                then s\<lparr>part_eof := (part_eof s)[nat (partition m) := 1],
                       part_eof_cnt := part_eof_cnt s + 1,
                       run := (part_eof_cnt s + 1 < part_eof_thres s)\<rparr>
                else s) \<and>
         (\<forall>s'. consume_cb cf m s = Inr s' \<longrightarrow>
            part_eof_thres s' = part_eof_thres s \<and>
            part_eof_cnt s' = int (flags_set (part_eof s')) \<and>
            (run s \<and> part_eof s ! nat (partition m) = 0 \<longrightarrow>
               part_eof s' ! nat (partition m) = 1 \<and>
               part_eof_cnt s' = part_eof_cnt s + 1 \<and>
               run s' = (part_eof_cnt s + 1 < part_eof_thres s)) \<and>
            ((run s \<and> \<not> run s') =
               (part_eof_cnt s < part_eof_thres s \<and> part_eof_thres s' \<le> part_eof_cnt s')) \<and>
            (run s' \<longrightarrow> part_eof_cnt s' < part_eof_thres s'))"
proof -
  have inv2: "eof_inv cf (length ps) s2"
    using assms(1-3) by (rule eof_inv_start)
  have inv: "eof_inv cf (length ps) s"
    using assms(1) inv2 assms(4) by (rule eof_inv_queue)
  have len: "length (part_eof s) = length ps"
    using inv by (simp add: eof_inv_def)
  have cb: "consume_cb cf m s =
      Inr (if run s \<and> part_eof s ! nat (partition m) = 0
           then s\<lparr>part_eof := (part_eof s)[nat (partition m) := 1],
                  part_eof_cnt := part_eof_cnt s + 1,
                  run := (part_eof_cnt s + 1 < part_eof_thres s)\<rparr>
           else s)"
  proof (cases "run s")
    case True
    with consume_cb_eof_marks[OF True assms(5) assms(1) assms(6)] assms(7) len
    show ?thesis by simp
  next
    case False
    then show ?thesis by (simp add: consume_cb_stopped)
  qed
  have after: "eof_inv cf (length ps) s'" if "consume_cb cf m s = Inr s'" for s'
    using assms(1) inv that by (rule eof_inv_step)
  have p: "nat (partition m) < length (part_eof s)"
    using assms(6,7) len by simp
  show ?thesis
  proof (intro conjI allI impI)
    fix s' assume r: "consume_cb cf m s = Inr s'"
    note a = after[OF r]
    from r cb have s': "s' = (if run s \<and> part_eof s ! nat (partition m) = 0
           then s\<lparr>part_eof := (part_eof s)[nat (partition m) := 1],
                  part_eof_cnt := part_eof_cnt s + 1,
                  run := (part_eof_cnt s + 1 < part_eof_thres s)\<rparr>
           else s)" by simp
    show "part_eof_thres s' = part_eof_thres s"
      using a inv by (simp add: eof_inv_def)
    show "part_eof_cnt s' = int (flags_set (part_eof s'))"
      using a by (simp add: eof_inv_def)
    show "run s' \<Longrightarrow> part_eof_cnt s' < part_eof_thres s'"
      using a by (simp add: eof_inv_def)
    show "(run s \<and> \<not> run s') =
        (part_eof_cnt s < part_eof_thres s \<and> part_eof_thres s' \<le> part_eof_cnt s')"
      using inv by (auto simp: s' eof_inv_def)
    assume f: "run s \<and> part_eof s ! nat (partition m) = 0"
    show "part_eof s' ! nat (partition m) = 1"
      using f p by (simp add: s')
    show "part_eof_cnt s' = part_eof_cnt s + 1"
      using f by (simp add: s')
    show "run s' = (part_eof_cnt s + 1 < part_eof_thres s)"
      using f by (simp add: s')
  qed (use inv cb in \<open>simp_all add: eof_inv_def\<close>)
qed


theorem eof_threshold_stops_run_witness:
  "consume_cb example_conf (eof_message 1 9)
     (example_started\<lparr>part_eof := [1, 0, 1], part_eof_cnt := 2\<rparr>) =
     Inr (example_started\<lparr>part_eof := [1, 1, 1], part_eof_cnt := 3, run := False\<rparr>) \<and>
   consume_cb example_conf (eof_message 2 7) example_started =
     Inr (example_started\<lparr>part_eof := [0, 0, 1], part_eof_cnt := 1, run := True\<rparr>) \<and>
   part_eof_thres example_started = 3 \<and>
   consume_cb (example_conf\<lparr>conf_partition := 1\<rparr>) (eof_message 1 9) example_started_p =
     Inr (example_started_p\<lparr>part_eof := [0, 1, 0], part_eof_cnt := 1, run := False\<rparr>) \<and>
   part_eof_thres example_started_p = 1"
proof -
  have cf: "exit_eof example_conf" and cfp: "exit_eof (example_conf\<lparr>conf_partition := 1\<rparr>)"
    by (simp_all add: example_conf_def)
  have ps: "[0, 1, 2 :: int] \<noteq> []"
    by simp
  have m1: "err (eof_message 1 9) = RD_KAFKA_RESP_ERR__PARTITION_EOF"
    and m2: "err (eof_message 2 7) = RD_KAFKA_RESP_ERR__PARTITION_EOF"
    by (simp_all add: eof_message_def)
  have lo1: "0 \<le> partition (eof_message 1 9)"
    and hi1: "partition (eof_message 1 9) < int (length [0, 1, 2 :: int])"
    and lo2: "0 \<le> partition (eof_message 2 7)"
    and hi2: "partition (eof_message 2 7) < int (length [0, 1, 2 :: int])"
    by (simp_all add: eof_message_def)
  note third = eof_threshold_stops_run[OF cf ps example_start example_two_eofs m1 lo1 hi1]
  note first = eof_threshold_stops_run[OF cf ps example_start example_nothing_yet m2 lo2 hi2]
  note chosen = eof_threshold_stops_run[OF cfp ps example_start_p example_nothing_yet m1 lo1 hi1]
  have a: "consume_cb example_conf (eof_message 1 9)
     (example_started\<lparr>part_eof := [1, 0, 1], part_eof_cnt := 2\<rparr>) =
     Inr (example_started\<lparr>part_eof := [1, 1, 1], part_eof_cnt := 3, run := False\<rparr>)"
    using third[THEN conjunct2, THEN conjunct2, THEN conjunct2, THEN conjunct2, THEN conjunct1]
    by (simp add: example_started_def eof_message_def)
  have b: "consume_cb example_conf (eof_message 2 7) example_started =
     Inr (example_started\<lparr>part_eof := [0, 0, 1], part_eof_cnt := 1, run := True\<rparr>)"
    using first[THEN conjunct2, THEN conjunct2, THEN conjunct2, THEN conjunct2, THEN conjunct1]
    by (simp add: example_started_def eof_message_def)
  have c: "part_eof_thres example_started = 3"
    using first[THEN conjunct1] by (simp add: example_conf_def)
  have d: "consume_cb (example_conf\<lparr>conf_partition := 1\<rparr>) (eof_message 1 9) example_started_p =
     Inr (example_started_p\<lparr>part_eof := [0, 1, 0], part_eof_cnt := 1, run := False\<rparr>)"
    using chosen[THEN conjunct2, THEN conjunct2, THEN conjunct2, THEN conjunct2, THEN conjunct1]
    by (simp add: example_started_p_def eof_message_def)
  have e: "part_eof_thres example_started_p = 1"
    using chosen[THEN conjunct1] by (simp add: example_conf_def RD_KAFKA_PARTITION_UA_def)
  from a b c d e show ?thesis by (intro conjI)
qed


lemma eof_later_refl: "eof_later s s"
  by (simp add: eof_later_def)

lemma eof_later_trans: "eof_later s s' \<Longrightarrow> eof_later s' s'' \<Longrightarrow> eof_later s s''"
  unfolding eof_later_def by (metis order_trans zero_neq_one)

lemma eof_later_step:
  assumes "consume_cb cf m s = Inr s'"
  shows "eof_later s s'"
proof (cases "run s")
  case False
  with assms show ?thesis by (simp add: consume_cb_stopped eof_later_refl)
next
  case True
  consider (data) "err m = 0"
    | (eof) "err m = RD_KAFKA_RESP_ERR__PARTITION_EOF" "exit_eof cf"
    | (eof_off) "err m = RD_KAFKA_RESP_ERR__PARTITION_EOF" "\<not> exit_eof cf"
    | (other) "err m \<noteq> 0" "err m \<noteq> RD_KAFKA_RESP_ERR__PARTITION_EOF"
    by blast
  then show ?thesis
  proof cases
    case data
    from consume_cb_data[OF True data assms] show ?thesis
      by (simp add: eof_later_def)
  next
    case eof
    from assms show ?thesis
      unfolding consume_cb_eof[OF True eof]
      by (auto simp: eof_later_def Let_def nth_list_update split: if_splits)
  next
    case eof_off
    with assms show ?thesis by (simp add: consume_cb_eof_off eof_later_refl)
  next
    case other
    with assms True show ?thesis by (simp add: consume_cb_error)
  qed
qed

lemma eof_later_queue:
  "rd_kafka_consume_callback_queue cf ms s = Inr s' \<Longrightarrow> eof_later s s'"
proof (induction ms arbitrary: s)
  case Nil
  then show ?case by (simp add: eof_later_refl)
next
  case (Cons m ms)
  then show ?case
    by (auto split: sum.splits intro: eof_later_trans eof_later_step)
qed

lemma no_exit_eof_step:
  assumes "\<not> exit_eof cf" and "consume_cb cf m s = Inr s'"
  shows "part_eof_cnt s' = part_eof_cnt s"
proof (cases "run s")
  case False
  with assms show ?thesis by (simp add: consume_cb_stopped)
next
  case True
  consider (data) "err m = 0" | (eof) "err m = RD_KAFKA_RESP_ERR__PARTITION_EOF"
    | (other) "err m \<noteq> 0" "err m \<noteq> RD_KAFKA_RESP_ERR__PARTITION_EOF"
    by blast
  then show ?thesis
  proof cases
    case data
    from consume_cb_data[OF True data assms(2)] show ?thesis by simp
  next
    case eof
    with assms show ?thesis by (simp add: consume_cb_eof_off)
  next
    case other
    with assms True show ?thesis by (simp add: consume_cb_error)
  qed
qed

lemma no_exit_eof_queue:
  assumes "\<not> exit_eof cf"
  shows "rd_kafka_consume_callback_queue cf ms s = Inr s' \<Longrightarrow> part_eof_cnt s' = part_eof_cnt s"
proof (induction ms arbitrary: s)
  case Nil
  then show ?case by simp
next
  case (Cons m ms)
  then show ?case
    by (auto split: sum.splits dest: no_exit_eof_step[OF assms])
qed

text \<open>
  C2. Between any two moments of a run the flag of a partition is unchanged or has gone
  from 0 to 1, so it is set at most once and never reset; and \<open>part_eof_cnt\<close> is at most
  the number of partitions whose stream the start loop has opened: 1 with \<open>-p\<close>, all
  partitions of the topic otherwise.
\<close>

theorem part_eof_once_and_bounded:
  assumes "ps \<noteq> []"
    and "start_loop cf start_ok ps 0 (part_eof_setup cf (length ps) (init_state fp)) = Inr (i, s2)"
    and "conf_partition cf = RD_KAFKA_PARTITION_UA \<or> i \<noteq> length ps"
    and "rd_kafka_consume_callback_queue cf ms1 s2 = Inr s1"
    and "rd_kafka_consume_callback_queue cf ms2 s1 = Inr s"
  shows "length (part_eof s) = length (part_eof s1) \<and>
         (\<forall>p < length (part_eof s1).
            part_eof s ! p = part_eof s1 ! p \<or> (part_eof s1 ! p = 0 \<and> part_eof s ! p = 1)) \<and>
         part_eof_cnt s \<le> int (length (streams s)) \<and>
         length (streams s) = (if conf_partition cf = RD_KAFKA_PARTITION_UA then length ps else 1)"
proof -
  have later: "eof_later s1 s"
    using assms(5) by (rule eof_later_queue)
  have all: "rd_kafka_consume_callback_queue cf (ms1 @ ms2) s2 = Inr s"
    using assms(4,5) by (simp add: callback_queue_append)
  have "streams (part_eof_setup cf (length ps) (init_state fp)) = []"
    by (simp add: part_eof_setup_def init_state_def)
  with assms(2) have "length (streams s2) =
      (if conf_partition cf = RD_KAFKA_PARTITION_UA then length ps else 1)"
    using assms(3) by (rule start_loop_selected)
  moreover have "streams s = streams s2"
    using all by (rule callback_queue_streams)
  ultimately have sel: "length (streams s) =
      (if conf_partition cf = RD_KAFKA_PARTITION_UA then length ps else 1)"
    by simp
  have bound: "part_eof_cnt s \<le> (if conf_partition cf \<noteq> RD_KAFKA_PARTITION_UA then 1 else int (length ps))"
  proof (cases "exit_eof cf")
    case True
    have "eof_inv cf (length ps) s2"
      using True assms(1,2) by (rule eof_inv_start)
    with True have "eof_inv cf (length ps) s"
      using all by (rule eof_inv_queue)
    then show ?thesis
      by (simp add: eof_inv_def)
  next
    case False
    have "part_eof_cnt s = part_eof_cnt s2"
      using False all by (rule no_exit_eof_queue)
    also have "\<dots> = 0"
      using start_loop_fields[OF assms(2)] False
      by (simp add: part_eof_setup_def init_state_def)
    finally show ?thesis by simp
  qed
  from later bound sel show ?thesis
    by (auto simp: eof_later_def split: if_splits)
qed

theorem part_eof_once_and_bounded_witness:
  "start_loop example_conf (\<lambda>p. True) [0, 1, 2] 0
     (part_eof_setup example_conf (length [0, 1, 2 :: int]) (init_state example_stdout)) =
     Inr (3, example_started) \<and>
   rd_kafka_consume_callback_queue example_conf
     [eof_message 2 7, eof_message 0 4, eof_message 2 7] example_started =
     Inr (example_started\<lparr>part_eof := [1, 0, 1], part_eof_cnt := 2\<rparr>) \<and>
   rd_kafka_consume_callback_queue example_conf [eof_message 1 9]
     (example_started\<lparr>part_eof := [1, 0, 1], part_eof_cnt := 2\<rparr>) =
     Inr (example_started\<lparr>part_eof := [1, 1, 1], part_eof_cnt := 3, run := False\<rparr>) \<and>
   part_eof_cnt (example_started\<lparr>part_eof := [1, 1, 1], part_eof_cnt := 3, run := False\<rparr>) \<le> 3 \<and>
   length (streams example_started) = 3"
proof -
  have ps: "[0, 1, 2 :: int] \<noteq> []"
    by simp
  have sel: "conf_partition example_conf = RD_KAFKA_PARTITION_UA \<or> 3 \<noteq> length [0, 1, 2 :: int]"
    by (simp add: example_conf_def)
  have last: "rd_kafka_consume_callback_queue example_conf [eof_message 1 9]
      (example_started\<lparr>part_eof := [1, 0, 1], part_eof_cnt := 2\<rparr>) =
    Inr (example_started\<lparr>part_eof := [1, 1, 1], part_eof_cnt := 3, run := False\<rparr>)"
    by (simp add: example_third_eof)
  from part_eof_once_and_bounded[OF ps example_start sel example_two_eofs last]
  show ?thesis
    using example_start example_two_eofs last
    by (simp add: example_conf_def example_started_def)
qed

text \<open>
  Two runs on a topic of three partitions. With \<open>-p 1\<close> the first EOF of partition 1
  ends the run, and the message after it in the same poll is dropped. Without \<open>-p\<close>, two
  partitions at EOF are not enough: the run is still polling.
\<close>

lemma example_filtered_run:
  "consumer_main (example_conf\<lparr>conf_partition := 1\<rparr>) (Inr example_metadata) (\<lambda>p. True)
     [[data_message 1 0 ''k'' ''v''], [], [eof_message 1 1, data_message 1 1 ''k'' ''w'']]
     (init_state example_stdout) =
   Returned 0
     \<lparr>run = False, part_eof = [0, 1, 0], part_eof_cnt = 1, part_eof_thres = 1, rx = 1,
      stdout = \<lparr>written = ''v'' @ [CHR 0x0A], script = []\<rparr>, streams = []\<rparr>"
  by (simp add: consumer_main_def example_metadata_def part_eof_setup_def init_state_def
      consume_cb_def example_conf_def example_stdout_def eof_message_def data_message_def
      rd_kafka_consume_stop_def fwrite_def put_bytes_def
      RD_KAFKA_RESP_ERR__PARTITION_EOF_def RD_KAFKA_PARTITION_UA_def Let_def)

lemma example_still_polling:
  "consumer_main example_conf (Inr example_metadata) (\<lambda>p. True)
     [[eof_message 0 4, eof_message 2 7]] (init_state example_stdout) =
   Polling (example_started\<lparr>part_eof := [1, 0, 1], part_eof_cnt := 2\<rparr>)"
  by (simp add: consumer_main_def example_metadata_def part_eof_setup_def init_state_def
      consume_cb_def example_conf_def example_started_def example_stdout_def eof_message_def
      RD_KAFKA_RESP_ERR__PARTITION_EOF_def RD_KAFKA_PARTITION_UA_def Let_def)

subsection \<open>After the run is stopped\<close>

text \<open>
  C10. When \<open>conf.run\<close> is cleared the callback returns at once: the rest of the poll and
  every later message leave the state as it is, whatever the messages are.
\<close>

theorem stopped_drops_records:
  assumes "rd_kafka_consume_callback_queue cf before s = Inr s1" and "\<not> run s1"
  shows "consume_cb cf m s1 = Inr s1 \<and>
         rd_kafka_consume_callback_queue cf (before @ rest) s = Inr s1 \<and>
         consume_loop cf polls s1 = Inr s1"
  using assms
  by (simp add: consume_cb_stopped callback_queue_append callback_queue_stopped consume_loop_stopped)

theorem stopped_drops_records_witness:
  "rd_kafka_consume_callback_queue example_conf
     [eof_message 0 4, eof_message 1 9, eof_message 2 7] example_started =
     Inr (example_started\<lparr>part_eof := [1, 1, 1], part_eof_cnt := 3, run := False\<rparr>) \<and>
   consume_cb example_conf (data_message 0 4 ''k'' ''late'')
     (example_started\<lparr>part_eof := [1, 1, 1], part_eof_cnt := 3, run := False\<rparr>) =
     Inr (example_started\<lparr>part_eof := [1, 1, 1], part_eof_cnt := 3, run := False\<rparr>) \<and>
   rd_kafka_consume_callback_queue example_conf
     ([eof_message 0 4, eof_message 1 9, eof_message 2 7] @ [data_message 0 4 ''k'' ''late''])
     example_started =
     Inr (example_started\<lparr>part_eof := [1, 1, 1], part_eof_cnt := 3, run := False\<rparr>)"
proof -
  have before: "rd_kafka_consume_callback_queue example_conf
      [eof_message 0 4, eof_message 1 9, eof_message 2 7] example_started =
    Inr (example_started\<lparr>part_eof := [1, 1, 1], part_eof_cnt := 3, run := False\<rparr>)"
    by (simp add: consume_cb_def example_conf_def example_started_def eof_message_def
        RD_KAFKA_RESP_ERR__PARTITION_EOF_def Let_def)
  have stopped: "\<not> run (example_started\<lparr>part_eof := [1, 1, 1], part_eof_cnt := 3, run := False\<rparr>)"
    by simp
  from stopped_drops_records[OF before stopped,
      of "data_message 0 4 ''k'' ''late''" "[data_message 0 4 ''k'' ''late'']" "[]"]
  show ?thesis
    using before by simp
qed

subsection \<open>Data messages\<close>

text \<open>
  What the callback does with a data message when no output call fails, the payload is
  not empty and the key has no NUL byte: the record is written as the spec composes it
  and counted. An empty payload ends in \<open>FATAL\<close>.
\<close>

lemma put_bytes_ok:
  "script fp = [] \<Longrightarrow> put_bytes buf fp = (True, fp\<lparr>written := written fp @ buf\<rparr>)"
  by (simp add: put_bytes_def)

lemma fwrite_ok:
  "script fp = [] \<Longrightarrow> buf \<noteq> [] \<Longrightarrow> fwrite buf fp = (1, fp\<lparr>written := written fp @ buf\<rparr>)"
  by (simp add: fwrite_def put_bytes_ok)

lemma takeWhile_no_nul:
  "CHR 0x00 \<notin> set k \<Longrightarrow> takeWhile (\<lambda>b. b \<noteq> CHR 0x00) k = k"
  by (simp add: takeWhile_eq_all_conv) metis

lemma consume_cb_data_ok:
  assumes "run s" and "err m = 0" and "script (stdout s) = []"
    and "payload m \<noteq> []" and "CHR 0x00 \<notin> set (key m)"
  shows "consume_cb cf m s =
     (let s1 = s\<lparr>stdout := (stdout s)\<lparr>written := written (stdout s) @ record_text cf m\<rparr>,
                  rx := rx s + 1\<rparr>
      in Inr (if rx s1 = msg_cnt cf then s1\<lparr>run := False\<rparr> else s1))"
  using assms
  by (simp add: consume_cb_def fprintf_offset_def fprintf_key_def put_bytes_ok fwrite_ok
      takeWhile_no_nul record_text_def Let_def)

lemma consume_cb_empty_payload:
  assumes "run s" and "err m = 0" and "payload m = []"
  shows "\<exists>s'. consume_cb cf m s = Inl (WriteError 0 (offset m), s')"
  using assms
  by (simp add: consume_cb_def fwrite_def Let_def)

text \<open>
  With a count limit \<open>N\<close>, a stream of such messages and no failing output call, exactly
  the first \<open>N\<close> records are written and the run is stopped.
\<close>

lemma of_nat_64_eq:
  "a < 2 ^ 64 \<Longrightarrow> b < 2 ^ 64 \<Longrightarrow> ((word_of_nat a :: int64) = word_of_nat b) = (a = b)"
  by (simp add: word_of_nat_eq_iff take_bit_nat_eq_self)

lemma count_limit_from:
  assumes "msg_cnt cf = word_of_nat N" and "N < 2 ^ 64"
  shows "run s \<Longrightarrow> script (stdout s) = [] \<Longrightarrow> rx s = word_of_nat j \<Longrightarrow> j < N \<Longrightarrow>
     N - j \<le> length ms \<Longrightarrow> list_all plain_data ms \<Longrightarrow>
     rd_kafka_consume_callback_queue cf ms s =
       Inr (s\<lparr>stdout := (stdout s)\<lparr>written := written (stdout s) @
                  concat (map (record_text cf) (take (N - j) ms))\<rparr>,
              rx := word_of_nat N, run := False\<rparr>)"
proof (induction ms arbitrary: s j)
  case Nil
  then show ?case by simp
next
  case (Cons m ms)
  from Cons.prems have m: "err m = 0" "payload m \<noteq> []" "CHR 0x00 \<notin> set (key m)"
    by (simp_all add: plain_data_def)
  let ?s1 = "s\<lparr>stdout := (stdout s)\<lparr>written := written (stdout s) @ record_text cf m\<rparr>,
                rx := rx s + 1\<rparr>"
  have step: "consume_cb cf m s = Inr (if rx ?s1 = msg_cnt cf then ?s1\<lparr>run := False\<rparr> else ?s1)"
    using consume_cb_data_ok[OF Cons.prems(1) m(1) Cons.prems(2) m(2,3), of cf]
    by (simp add: Let_def)
  have rx1: "rx ?s1 = word_of_nat (Suc j)"
    using Cons.prems(3) by simp
  have "((word_of_nat (Suc j) :: int64) = word_of_nat N) = (Suc j = N)"
    using Cons.prems(4) assms(2) by (intro of_nat_64_eq) simp_all
  then have lim: "(rx ?s1 = msg_cnt cf) = (Suc j = N)"
    by (simp only: rx1 assms(1))
  show ?case
  proof (cases "Suc j = N")
    case True
    then have "N - j = Suc 0" by simp
    with True lim step rx1 show ?thesis
      by (simp add: callback_queue_stopped del: of_nat_Suc)
  next
    case False
    with Cons.prems(4) have j: "Suc j < N" by simp
    have take: "take (N - j) (m # ms) = m # take (N - Suc j) ms"
      using j by (simp add: take_Cons')
    have "rd_kafka_consume_callback_queue cf ms ?s1 =
       Inr (?s1\<lparr>stdout := (stdout ?s1)\<lparr>written := written (stdout ?s1) @
                  concat (map (record_text cf) (take (N - Suc j) ms))\<rparr>,
              rx := word_of_nat N, run := False\<rparr>)"
      using Cons.prems j rx1
      by (intro Cons.IH) simp_all
    with False lim step show ?thesis
      by (simp add: take)
  qed
qed

text \<open>
  C4. The claim: for every data record and every choice of the two options the output is
  the offset field, the key field, the payload and the record delimiter, in this order.
  The code at two records. A record with an empty payload: the offset and the key are
  written, \<open>fwrite\<close> of zero bytes returns 0, which the callback takes for a write
  error, and \<open>FATAL\<close> is called before the record delimiter is written. A key with a NUL
  byte: \<open>%.*s\<close> stops at it, the rest of the key is missing.
\<close>

theorem empty_payload_breaks_record:
  "consume_cb (example_conf\<lparr>flags := {CONF_F_OFFSET, CONF_F_KEY_DELIM}\<rparr>)
     (data_message 0 12 ''k'' '''') example_started =
     Inl (WriteError 0 12,
          example_started\<lparr>stdout := \<lparr>written = ''12'' @ [CHR 0x09] @ ''k'' @ [CHR 0x09],
                                       script = []\<rparr>\<rparr>) \<and>
   consume_cb (example_conf\<lparr>flags := {CONF_F_KEY_DELIM}\<rparr>)
     (data_message 0 12 [CHR ''a'', CHR 0x00, CHR ''b''] ''v'') example_started =
     Inr (example_started\<lparr>stdout := \<lparr>written = ''a'' @ [CHR 0x09] @ ''v'' @ [CHR 0x0A],
                                       script = []\<rparr>,
                          rx := 1\<rparr>)"
  by (simp add: consume_cb_def example_conf_def data_message_def example_started_def
      example_stdout_def fprintf_offset_def fprintf_key_def fwrite_def put_bytes_def
      dec_int_def dec_nat.simps Let_def)

text \<open>
  C6. The claim: a failing write at any of the four steps is fatal. The code at a failing
  \<open>fprintf\<close> of the offset and at a short \<open>fprintf\<close> of the key: the results of both
  calls are dropped, the payload and the delimiter are written, the record is counted and
  the run goes on. Only a failing \<open>fwrite\<close> is fatal, the third case.
\<close>

theorem failed_fprintf_goes_unnoticed:
  "consume_cb (example_conf\<lparr>flags := {CONF_F_OFFSET}\<rparr>) (data_message 0 12 ''k'' ''hello'')
     (example_started\<lparr>stdout := \<lparr>written = [], script = [IoFail 0]\<rparr>\<rparr>) =
     Inr (example_started\<lparr>stdout := \<lparr>written = ''hello'' @ [CHR 0x0A], script = []\<rparr>,
                          rx := 1\<rparr>) \<and>
   consume_cb (example_conf\<lparr>flags := {CONF_F_KEY_DELIM}\<rparr>) (data_message 0 12 ''key'' ''hello'')
     (example_started\<lparr>stdout := \<lparr>written = [], script = [IoFail 1]\<rparr>\<rparr>) =
     Inr (example_started\<lparr>stdout := \<lparr>written = ''k'' @ ''hello'' @ [CHR 0x0A], script = []\<rparr>,
                          rx := 1\<rparr>) \<and>
   consume_cb example_conf (data_message 0 12 ''k'' ''hello'')
     (example_started\<lparr>stdout := \<lparr>written = [], script = [IoFail 2]\<rparr>\<rparr>) =
     Inl (WriteError 5 12,
          example_started\<lparr>stdout := \<lparr>written = ''he'', script = []\<rparr>\<rparr>)"
  by (simp add: consume_cb_def example_conf_def data_message_def example_started_def
      fprintf_offset_def fprintf_key_def fwrite_def put_bytes_def
      dec_int_def dec_nat.simps Let_def)

text \<open>
  C3. The claim: every data record is counted once, and only after it has been written,
  so that with a limit of \<open>N\<close> exactly \<open>N\<close> records are written. The code with a limit
  of 2 at a stream that starts with a record of empty payload: \<open>FATAL\<close> at the first
  record, nothing written and nothing counted. And with a limit of 1 at a record whose
  offset cannot be written: the record is counted and ends the run although its offset
  field is missing. Lemma \<open>count_limit_from\<close> is what holds.
\<close>

theorem count_limit_not_reached:
  "rd_kafka_consume_callback_queue (example_conf\<lparr>msg_cnt := 2\<rparr>)
     [data_message 0 0 ''k'' '''', data_message 0 1 ''k'' ''a'', data_message 0 2 ''k'' ''b'']
     example_started =
     Inl (WriteError 0 0, example_started) \<and>
   consume_cb (example_conf\<lparr>msg_cnt := 1, flags := {CONF_F_OFFSET}\<rparr>)
     (data_message 0 12 ''k'' ''hello'')
     (example_started\<lparr>stdout := \<lparr>written = [], script = [IoFail 0]\<rparr>\<rparr>) =
     Inr (example_started\<lparr>stdout := \<lparr>written = ''hello'' @ [CHR 0x0A], script = []\<rparr>,
                          rx := 1, run := False\<rparr>)"
  by (simp add: consume_cb_def example_conf_def data_message_def example_started_def
      example_stdout_def fprintf_offset_def fprintf_key_def fwrite_def put_bytes_def
      dec_int_def dec_nat.simps Let_def)

subsection \<open>Metadata and the choice of partitions\<close>

text \<open>
  C8. With an answer to the metadata request, \<open>consumer_main\<close> calls \<open>FATAL\<close> for a
  missing topic, else for an error code of the topic, else for a topic without
  partitions, else, when a partition was asked for with \<open>-p\<close> that is not among the ids
  of the topic, for this partition with the range from 0 to \<open>partition_cnt - 1\<close>. In
  every other case it goes on with the partitions of the topic: it starts the consumers
  and polls.
\<close>

theorem metadata_resolution:
  "consumer_main cf (Inr md) start_ok polls s =
     (if topics md = [] then Fatal TopicNotFound s
      else if topic_err (hd (topics md)) \<noteq> 0
        then Fatal (TopicError (topic_err (hd (topics md)))) s
      else if partitions (hd (topics md)) = [] then Fatal NoPartitions s
      else if conf_partition cf \<noteq> RD_KAFKA_PARTITION_UA \<and>
              conf_partition cf \<notin> set (partitions (hd (topics md)))
        then Fatal (PartitionNotFound 0 (int (length (partitions (hd (topics md)))) - 1)
                      (conf_partition cf))
               (part_eof_setup cf (length (partitions (hd (topics md)))) s)
      else
        (case start_loop cf start_ok (partitions (hd (topics md))) 0
                (part_eof_setup cf (length (partitions (hd (topics md)))) s) of
           Inl (e, s2) \<Rightarrow> Fatal e s2
         | Inr (i, s2) \<Rightarrow>
             (case consume_loop cf polls s2 of
                Inl (e, s3) \<Rightarrow> Fatal e s3
              | Inr s3 \<Rightarrow>
                  if run s3 then Polling s3
                  else Returned (exitcode cf) (stop_loop cf (partitions (hd (topics md))) s3))))"
proof -
  let ?ps = "partitions (hd (topics md))"
  let ?s1 = "part_eof_setup cf (length ?ps) s"
  consider (absent) "conf_partition cf \<noteq> RD_KAFKA_PARTITION_UA" "conf_partition cf \<notin> set ?ps"
    | (present) "conf_partition cf \<noteq> RD_KAFKA_PARTITION_UA" "conf_partition cf \<in> set ?ps"
    | (all) "conf_partition cf = RD_KAFKA_PARTITION_UA"
    by blast
  then show ?thesis
  proof cases
    case absent
    then show ?thesis
      by (simp add: consumer_main_def Let_def start_loop_absent)
  next
    case present
    have "j \<noteq> length ?ps" if "start_loop cf start_ok ?ps 0 ?s1 = Inr (j, s2)" for j s2
      using start_loop_present[OF present that] by simp
    with present show ?thesis
      by (auto simp: consumer_main_def Let_def split: sum.splits prod.splits)
  next
    case all
    then show ?thesis
      by (auto simp: consumer_main_def Let_def split: sum.splits prod.splits)
  qed
qed

theorem metadata_resolution_witness:
  "consumer_main (example_conf\<lparr>conf_partition := 7\<rparr>) (Inr example_metadata) (\<lambda>p. True) []
     (init_state example_stdout) =
   Fatal (PartitionNotFound 0 2 7)
     (part_eof_setup (example_conf\<lparr>conf_partition := 7\<rparr>) (length [0, 1, 2 :: int])
        (init_state example_stdout))"
  using metadata_resolution[of "example_conf\<lparr>conf_partition := 7\<rparr>" example_metadata
      "\<lambda>p. True" "[]" "init_state example_stdout"]
  by (simp add: example_metadata_def example_conf_def RD_KAFKA_PARTITION_UA_def)

subsection \<open>Closing the streams\<close>






subsection \<open>The start offset\<close>

lemma sint_int64:
  fixes v :: int
  assumes "LLONG_MIN \<le> v" and "v \<le> LLONG_MAX"
  shows "sint (word_of_int v :: int64) = v"
  using assms
  by (simp add: sint_sbintrunc' signed_take_bit_int_eq_self LLONG_MIN_def LLONG_MAX_def)

lemma strtoll_range: "LLONG_MIN \<le> strtoll s \<and> strtoll s \<le> LLONG_MAX"
  by (simp add: strtoll_def Let_def LLONG_MIN_def LLONG_MAX_def)

lemma sint_strtoll: "sint (word_of_int (strtoll s) :: int64) = strtoll s"
  using strtoll_range[of s] by (simp add: sint_int64)

lemma tail_of_int:
  "RD_KAFKA_OFFSET_TAIL (- word_of_int v) = word_of_int (v - 2000)"
  by (simp add: RD_KAFKA_OFFSET_TAIL_def RD_KAFKA_OFFSET_TAIL_BASE_def)

lemma sint_tail:
  assumes "v < 0" and "LLONG_MIN + 2000 \<le> v"
  shows "sint (RD_KAFKA_OFFSET_TAIL (- word_of_int v)) = v - 2000"
proof -
  have "LLONG_MIN \<le> v - 2000" and "v - 2000 \<le> LLONG_MAX"
    using assms by (simp_all add: LLONG_MIN_def LLONG_MAX_def)
  then have "sint (word_of_int (v - 2000) :: int64) = v - 2000"
    by (rule sint_int64)
  then show ?thesis
    by (simp only: tail_of_int)
qed

lemma sint_tail_wrapped:
  assumes "LLONG_MIN \<le> v" and "v < LLONG_MIN + 2000"
  shows "sint (RD_KAFKA_OFFSET_TAIL (- word_of_int v)) = v - 2000 + 2 ^ 64"
proof -
  let ?y = "v - 2000 + 9223372036854775808"
  have y: "- 2000 \<le> ?y" "?y < 0"
    using assms by (simp_all add: LLONG_MIN_def)
  have "?y mod 18446744073709551616 = (?y + 18446744073709551616) mod 18446744073709551616"
    by (simp only: mod_add_self2)
  also have "\<dots> = ?y + 18446744073709551616"
    using y by (intro mod_pos_pos_trivial) simp_all
  finally have ymod: "?y mod 18446744073709551616 = ?y + 18446744073709551616" .
  have "sint (word_of_int (v - 2000) :: int64) = ?y mod 18446744073709551616 - 9223372036854775808"
    unfolding int_word_sint by simp
  also have "\<dots> = v - 2000 + 2 ^ 64"
    unfolding ymod by simp
  finally have "sint (word_of_int (v - 2000) :: int64) = v - 2000 + 2 ^ 64" .
  then show ?thesis
    by (simp only: tail_of_int)
qed

lemma directive_of_nonneg:
  assumes "0 \<le> sint off"
  shows "directive_of off = Some (Absolute (sint off))"
proof -
  have "off \<noteq> - 1"
  proof
    assume "off = - 1"
    then have "sint off = - 1" by simp
    with assms show False by simp
  qed
  moreover have "off \<noteq> - 2"
  proof
    assume "off = - 2"
    then have "sint off = - 2" by simp
    with assms show False by simp
  qed
  moreover have "off \<noteq> - 1000"
  proof
    assume "off = - 1000"
    then have "sint off = - 1000" by simp
    with assms show False by simp
  qed
  ultimately show ?thesis
    using assms
    by (simp add: directive_of_def RD_KAFKA_OFFSET_END_def RD_KAFKA_OFFSET_BEGINNING_def
        RD_KAFKA_OFFSET_STORED_def RD_KAFKA_OFFSET_TAIL_BASE_def)
qed

lemma directive_of_tail:
  assumes "sint off \<le> - 2000"
  shows "directive_of off = Some (TailRelative (- 2000 - sint off))"
proof -
  have "off \<noteq> - 1"
  proof
    assume "off = - 1"
    then have "sint off = - 1" by simp
    with assms show False by simp
  qed
  moreover have "off \<noteq> - 2"
  proof
    assume "off = - 2"
    then have "sint off = - 2" by simp
    with assms show False by simp
  qed
  moreover have "off \<noteq> - 1000"
  proof
    assume "off = - 1000"
    then have "sint off = - 1000" by simp
    with assms show False by simp
  qed
  ultimately show ?thesis
    using assms
    by (simp add: directive_of_def RD_KAFKA_OFFSET_END_def RD_KAFKA_OFFSET_BEGINNING_def
        RD_KAFKA_OFFSET_STORED_def RD_KAFKA_OFFSET_TAIL_BASE_def)
qed

lemma consumer_argparse_o_number:
  assumes "optarg \<notin> {''end'', ''beginning'', ''stored''}"
  shows "consumer_argparse_o optarg =
     (if strtoll optarg < 0 then RD_KAFKA_OFFSET_TAIL (- word_of_int (strtoll optarg))
      else word_of_int (strtoll optarg))"
  using assms
  by (simp add: consumer_argparse_o_def Let_def sint_strtoll)

text \<open>
  \<open>strtoll\<close> reads every 64-bit number back from its decimal form, also when other
  characters follow the digits.
\<close>

lemma digit_cases:
  assumes "k < (10::nat)"
  obtains "k = 0" | "k = 1" | "k = 2" | "k = 3" | "k = 4" | "k = 5" | "k = 6" | "k = 7"
    | "k = 8" | "k = 9"
  using assms by atomize_elim presburger

lemma digit_char:
  assumes "k < 10"
  shows "isdigit (''0123456789'' ! k)" and "digit_val (''0123456789'' ! k) = int k"
    and "\<not> isspace (''0123456789'' ! k)" and "''0123456789'' ! k \<noteq> CHR ''-''"
    and "''0123456789'' ! k \<noteq> CHR ''+''"
  using assms
  by (cases k rule: digit_cases; simp add: isdigit_def digit_val_def isspace_def)+

lemma dec_nat_digits:
  "list_all isdigit (dec_nat n) \<and> dec_nat n \<noteq> [] \<and>
   foldl (\<lambda>a c. 10 * a + digit_val c) 0 (dec_nat n) = int n"
proof (induction n rule: dec_nat.induct)
  case (1 n)
  show ?case
  proof (cases "n < 10")
    case True
    then show ?thesis
      by (subst (1 2 3) dec_nat.simps) (simp add: digit_char)
  next
    case False
    have d: "n mod 10 < 10" by simp
    have e: "10 * int (n div 10) + int (n mod 10) = int n"
      by presburger
    from False 1 e show ?thesis
      by (subst (1 2 3) dec_nat.simps) (simp add: digit_char[OF d])
  qed
qed

lemma dec_nat_hd:
  "isdigit (hd (dec_nat n))"
  using dec_nat_digits[of n] by (cases "dec_nat n") simp_all

lemma isdigit_not_space_sign:
  assumes "isdigit c"
  shows "\<not> isspace c" and "c \<noteq> CHR ''-''" and "c \<noteq> CHR ''+''"
  using assms by (auto simp: isdigit_def isspace_def)

lemma strtoll_digits_dec_nat: "strtoll_digits (dec_nat n) = dec_nat n"
proof -
  obtain c cs where cs: "dec_nat n = c # cs"
    using dec_nat_digits[of n] by (cases "dec_nat n") simp_all
  have c: "isdigit c" using dec_nat_hd[of n] cs by simp
  have all: "list_all isdigit (c # cs)" using dec_nat_digits[of n] cs by simp
  then have "takeWhile isdigit (c # cs) = c # cs"
    by (simp add: list_all_iff takeWhile_eq_all_conv)
  with isdigit_not_space_sign[OF c] show ?thesis
    by (simp add: strtoll_digits_def cs)
qed

lemma strtoll_negative_dec_nat: "\<not> strtoll_negative (dec_nat n)"
proof -
  obtain c cs where cs: "dec_nat n = c # cs"
    using dec_nat_digits[of n] by (cases "dec_nat n") simp_all
  have c: "isdigit c" using dec_nat_hd[of n] cs by simp
  with isdigit_not_space_sign[OF c] show ?thesis
    by (simp add: strtoll_negative_def cs)
qed

lemma strtoll_digits_minus: "strtoll_digits (CHR ''-'' # dec_nat n) = dec_nat n"
proof -
  have "strtoll_digits (CHR ''-'' # dec_nat n) = takeWhile isdigit (dec_nat n)"
    by (simp add: strtoll_digits_def isspace_def)
  also have "\<dots> = dec_nat n"
    using dec_nat_digits[of n] by (simp add: list_all_iff takeWhile_eq_all_conv)
  finally show ?thesis .
qed

lemma strtoll_dec_int:
  assumes "LLONG_MIN \<le> v" and "v \<le> LLONG_MAX"
  shows "strtoll (dec_int v) = v"
proof (cases "v < 0")
  case True
  have neg: "strtoll_negative (CHR ''-'' # dec_nat (nat (- v)))"
    by (simp add: strtoll_negative_def isspace_def)
  from True assms show ?thesis
    by (simp add: dec_int_def strtoll_def neg strtoll_digits_minus dec_nat_digits Let_def)
next
  case False
  with assms show ?thesis
    by (simp add: dec_int_def strtoll_def strtoll_negative_dec_nat strtoll_digits_dec_nat
        dec_nat_digits Let_def)
qed

lemma takeWhile_digits_then:
  assumes "list_all isdigit xs" and "\<not> isdigit c"
  shows "takeWhile isdigit (xs @ c # rest) = xs"
  using assms by (simp add: list_all_iff takeWhile_append2)

lemma strtoll_trailing:
  assumes "LLONG_MIN \<le> v" and "v \<le> LLONG_MAX" and "\<not> isdigit c"
  shows "strtoll (dec_int v @ c # rest) = v"
proof (cases "v < 0")
  case True
  have neg: "strtoll_negative (CHR ''-'' # dec_nat (nat (- v)) @ c # rest)"
    by (simp add: strtoll_negative_def isspace_def)
  have "strtoll_digits (CHR ''-'' # dec_nat (nat (- v)) @ c # rest) =
      takeWhile isdigit (dec_nat (nat (- v)) @ c # rest)"
    by (simp add: strtoll_digits_def isspace_def)
  also have "\<dots> = dec_nat (nat (- v))"
    using dec_nat_digits[of "nat (- v)"] assms(3) by (simp add: takeWhile_digits_then)
  finally have "strtoll_digits (CHR ''-'' # dec_nat (nat (- v)) @ c # rest) = dec_nat (nat (- v))" .
  with True assms neg show ?thesis
    by (simp add: dec_int_def strtoll_def dec_nat_digits Let_def)
next
  case False
  obtain d ds where ds: "dec_nat (nat v) = d # ds"
    using dec_nat_digits[of "nat v"] by (cases "dec_nat (nat v)") simp_all
  have d: "isdigit d" using dec_nat_hd[of "nat v"] ds by simp
  have "strtoll_digits (dec_nat (nat v) @ c # rest) = takeWhile isdigit (dec_nat (nat v) @ c # rest)"
    using isdigit_not_space_sign[OF d] by (simp add: strtoll_digits_def ds)
  also have "\<dots> = dec_nat (nat v)"
    using dec_nat_digits[of "nat v"] assms(3) by (simp add: takeWhile_digits_then)
  finally have dg: "strtoll_digits (dec_nat (nat v) @ c # rest) = dec_nat (nat v)" .
  have "\<not> strtoll_negative (dec_nat (nat v) @ c # rest)"
    using isdigit_not_space_sign[OF d] by (simp add: strtoll_negative_def ds)
  with False assms dg show ?thesis
    by (simp add: dec_int_def strtoll_def dec_nat_digits Let_def)
qed

lemma strtoll_no_digits: "strtoll_digits s = [] \<Longrightarrow> strtoll s = 0"
  by (simp add: strtoll_def LLONG_MIN_def LLONG_MAX_def)

text \<open>
  C5. The claim: an argument of \<open>-o\<close> that is neither a keyword nor a number is refused.
  The code accepts \<open>abc\<close> as the absolute offset 0.
\<close>

theorem offset_abc_is_accepted:
  "directive_of (consumer_argparse_o ''abc'') = Some (Absolute 0)"
  by (simp add: consumer_argparse_o_def strtoll_def strtoll_digits_def strtoll_negative_def
      isspace_def isdigit_def directive_of_def RD_KAFKA_OFFSET_END_def
      RD_KAFKA_OFFSET_BEGINNING_def RD_KAFKA_OFFSET_STORED_def RD_KAFKA_OFFSET_TAIL_BASE_def
      LLONG_MIN_def LLONG_MAX_def)

text \<open>
  C5, as the code has it. Nothing is refused: every argument of \<open>-o\<close> is an offset
  directive. An argument that is not a keyword goes to \<open>strtoll\<close> as it is, and the
  directive is that of the value \<open>v\<close> that \<open>strtoll\<close> returns: the absolute offset \<open>v\<close>
  for \<open>v\<close> from 0 on, which is 0 when there is no digit to read, the tail offset of
  \<open>- v\<close> for a negative \<open>v\<close> from \<open>LLONG_MIN + 2000\<close> on, and below that the absolute
  offset that the subtraction wraps to.
\<close>

theorem offset_is_never_refused:
  "directive_of (consumer_argparse_o optarg) \<noteq> None \<and>
   (optarg \<notin> {''end'', ''beginning'', ''stored''} \<longrightarrow>
      (strtoll_digits optarg = [] \<longrightarrow>
         directive_of (consumer_argparse_o optarg) = Some (Absolute 0)) \<and>
      (0 \<le> strtoll optarg \<longrightarrow>
         directive_of (consumer_argparse_o optarg) = Some (Absolute (strtoll optarg))) \<and>
      (strtoll optarg < 0 \<and> LLONG_MIN + 2000 \<le> strtoll optarg \<longrightarrow>
         directive_of (consumer_argparse_o optarg) = Some (TailRelative (- strtoll optarg))) \<and>
      (strtoll optarg < LLONG_MIN + 2000 \<longrightarrow>
         directive_of (consumer_argparse_o optarg) =
           Some (Absolute (strtoll optarg - 2000 + 2 ^ 64))))"
proof (cases "optarg \<in> {''end'', ''beginning'', ''stored''}")
  case True
  then show ?thesis
    by (auto simp: consumer_argparse_o_def directive_of_def RD_KAFKA_OFFSET_END_def
        RD_KAFKA_OFFSET_BEGINNING_def RD_KAFKA_OFFSET_STORED_def)
next
  case False
  let ?v = "strtoll optarg"
  let ?tail = "RD_KAFKA_OFFSET_TAIL (- word_of_int ?v)"
  have abs: "directive_of (consumer_argparse_o optarg) = Some (Absolute ?v)" if "0 \<le> ?v"
  proof -
    have "consumer_argparse_o optarg = word_of_int ?v"
      using False that by (simp add: consumer_argparse_o_number)
    moreover have "directive_of (word_of_int ?v :: int64) =
        Some (Absolute (sint (word_of_int ?v :: int64)))"
      by (rule directive_of_nonneg) (simp add: sint_strtoll that)
    ultimately show ?thesis by (simp add: sint_strtoll)
  qed
  have none: "directive_of (consumer_argparse_o optarg) = Some (Absolute 0)"
    if "strtoll_digits optarg = []"
    using abs that by (simp add: strtoll_no_digits)
  have tail: "directive_of (consumer_argparse_o optarg) = Some (TailRelative (- ?v))"
    if "?v < 0" and "LLONG_MIN + 2000 \<le> ?v"
  proof -
    have eq: "consumer_argparse_o optarg = ?tail"
      using False that by (simp add: consumer_argparse_o_number)
    have sv: "sint ?tail = ?v - 2000"
      using that by (rule sint_tail)
    have "directive_of ?tail = Some (TailRelative (- 2000 - sint ?tail))"
      by (rule directive_of_tail) (use sv that(1) in simp)
    then show ?thesis
      by (simp only: eq sv) simp
  qed
  have wrap: "directive_of (consumer_argparse_o optarg) = Some (Absolute (?v - 2000 + 2 ^ 64))"
    if "?v < LLONG_MIN + 2000"
  proof -
    have neg: "?v < 0"
      using that by (simp add: LLONG_MIN_def)
    have eq: "consumer_argparse_o optarg = ?tail"
      using False neg by (simp add: consumer_argparse_o_number)
    have lo: "LLONG_MIN \<le> ?v"
      using strtoll_range[of optarg] by simp
    have sv: "sint ?tail = ?v - 2000 + 2 ^ 64"
      using lo that by (rule sint_tail_wrapped)
    have "directive_of ?tail = Some (Absolute (sint ?tail))"
      by (rule directive_of_nonneg) (use sv lo in \<open>simp add: LLONG_MIN_def\<close>)
    then show ?thesis
      by (simp only: eq sv)
  qed
  have "directive_of (consumer_argparse_o optarg) \<noteq> None"
  proof -
    consider "0 \<le> ?v" | "?v < 0" "LLONG_MIN + 2000 \<le> ?v" | "?v < LLONG_MIN + 2000"
      by linarith
    then show ?thesis
      by cases (simp_all add: abs tail wrap)
  qed
  with False none abs tail wrap show ?thesis
    by blast
qed


lemma strtoll_examples:
  "strtoll ''latest'' = 0" "strtoll ''-5abc'' = - 5" "strtoll '' 12abc'' = 12"
  "strtoll ''99999999999999999999abc'' = LLONG_MAX" "strtoll_digits ''latest'' = []"
  by (simp_all add: strtoll_def strtoll_digits_def strtoll_negative_def isspace_def isdigit_def
      digit_val_def LLONG_MIN_def LLONG_MAX_def)

theorem offset_is_never_refused_witness:
  "directive_of (consumer_argparse_o ''latest'') = Some (Absolute 0) \<and>
   directive_of (consumer_argparse_o ''-5abc'') = Some (TailRelative 5) \<and>
   directive_of (consumer_argparse_o '' 12abc'') = Some (Absolute 12) \<and>
   directive_of (consumer_argparse_o ''99999999999999999999abc'') = Some (Absolute LLONG_MAX)"
proof -
  have a: "directive_of (consumer_argparse_o ''latest'') = Some (Absolute 0)"
    using offset_is_never_refused[of "''latest''"] by (simp add: strtoll_examples)
  have b: "directive_of (consumer_argparse_o ''-5abc'') = Some (TailRelative 5)"
    using offset_is_never_refused[of "''-5abc''"]
    by (simp add: strtoll_examples LLONG_MIN_def)
  have c: "directive_of (consumer_argparse_o '' 12abc'') = Some (Absolute 12)"
    using offset_is_never_refused[of "'' 12abc''"] by (simp add: strtoll_examples)
  have d: "directive_of (consumer_argparse_o ''99999999999999999999abc'') = Some (Absolute LLONG_MAX)"
    using offset_is_never_refused[of "''99999999999999999999abc''"]
    by (simp add: strtoll_examples LLONG_MAX_def)
  from a b c d show ?thesis by (intro conjI)
qed


text \<open>
  C9. The claim: every negative number \<open>v\<close> becomes the tail offset of \<open>- v\<close>. The code at
  \<open>-9223372036854773809\<close>: the tail offset does not fit 64 bits, and what is stored is
  the absolute offset \<open>LLONG_MAX\<close>.
\<close>

theorem offset_tail_overflow:
  "strtoll ''-9223372036854773809'' = - 9223372036854773809 \<and>
   directive_of (consumer_argparse_o ''-9223372036854773809'') =
     Some (Absolute 9223372036854775807)"
  by (simp add: consumer_argparse_o_def strtoll_def strtoll_digits_def strtoll_negative_def
      isspace_def isdigit_def digit_val_def directive_of_def RD_KAFKA_OFFSET_END_def
      RD_KAFKA_OFFSET_BEGINNING_def RD_KAFKA_OFFSET_STORED_def RD_KAFKA_OFFSET_TAIL_BASE_def
      RD_KAFKA_OFFSET_TAIL_def LLONG_MIN_def LLONG_MAX_def Let_def)

text \<open>
  C9, as the code has it. The keywords are the three logical offsets. Every other
  argument goes through \<open>strtoll\<close>, which reads back every 64-bit number from its decimal
  form; a result \<open>v\<close> from 0 on is the absolute offset \<open>v\<close>, a negative \<open>v\<close> from
  \<open>LLONG_MIN + 2000\<close> on is the tail offset of \<open>- v\<close>. The start loop opens the stream of
  every selected partition with the one offset of the configuration.
\<close>

theorem offset_resolution:
  assumes "LLONG_MIN \<le> v" and "v \<le> LLONG_MAX"
    and "optarg \<notin> {''end'', ''beginning'', ''stored''}"
    and "start_loop cf start_ok ps i s = Inr (j, s')"
  shows "directive_of (consumer_argparse_o ''end'') = Some Latest \<and>
   directive_of (consumer_argparse_o ''beginning'') = Some Earliest \<and>
   directive_of (consumer_argparse_o ''stored'') = Some Stored \<and>
   strtoll (dec_int v) = v \<and>
   (0 \<le> strtoll optarg \<longrightarrow>
      directive_of (consumer_argparse_o optarg) = Some (Absolute (strtoll optarg))) \<and>
   (strtoll optarg < 0 \<and> LLONG_MIN + 2000 \<le> strtoll optarg \<longrightarrow>
      directive_of (consumer_argparse_o optarg) = Some (TailRelative (- strtoll optarg))) \<and>
   streams s' = streams s @
     map (\<lambda>p. (p, conf_offset cf))
       (if conf_partition cf = RD_KAFKA_PARTITION_UA then ps
        else take 1 (filter (\<lambda>p. p = conf_partition cf) ps))"
proof -
  have kw: "directive_of (consumer_argparse_o ''end'') = Some Latest"
    "directive_of (consumer_argparse_o ''beginning'') = Some Earliest"
    "directive_of (consumer_argparse_o ''stored'') = Some Stored"
    by (simp_all add: consumer_argparse_o_def directive_of_def RD_KAFKA_OFFSET_END_def
        RD_KAFKA_OFFSET_BEGINNING_def RD_KAFKA_OFFSET_STORED_def)
  have abs: "directive_of (consumer_argparse_o optarg) = Some (Absolute (strtoll optarg))"
    if "optarg \<notin> {''end'', ''beginning'', ''stored''}" and "0 \<le> strtoll optarg"
  proof -
    have "consumer_argparse_o optarg = word_of_int (strtoll optarg)"
      using that by (simp add: consumer_argparse_o_number)
    moreover have "directive_of (word_of_int (strtoll optarg) :: int64) =
        Some (Absolute (sint (word_of_int (strtoll optarg) :: int64)))"
      by (rule directive_of_nonneg) (simp add: sint_strtoll that(2))
    ultimately show ?thesis by (simp add: sint_strtoll)
  qed
  have tail: "directive_of (consumer_argparse_o optarg) = Some (TailRelative (- strtoll optarg))"
    if "optarg \<notin> {''end'', ''beginning'', ''stored''}" and "strtoll optarg < 0"
      and "LLONG_MIN + 2000 \<le> strtoll optarg"
  proof -
    let ?off = "RD_KAFKA_OFFSET_TAIL (- word_of_int (strtoll optarg))"
    have eq: "consumer_argparse_o optarg = ?off"
      using that by (simp add: consumer_argparse_o_number)
    have sv: "sint ?off = strtoll optarg - 2000"
      using that(2,3) by (rule sint_tail)
    have "directive_of ?off = Some (TailRelative (- 2000 - sint ?off))"
      by (rule directive_of_tail) (use sv that(2) in simp)
    then show ?thesis
      by (simp only: eq sv) simp
  qed
  from kw abs tail assms(3) strtoll_dec_int[OF assms(1,2)] start_loop_streams[OF assms(4)]
  show ?thesis
    by simp
qed

theorem offset_resolution_witness:
  "strtoll (dec_int (- 5)) = - 5 \<and>
   directive_of (consumer_argparse_o ''-5'') = Some (TailRelative 5) \<and>
   streams example_started =
     [(0, conf_offset example_conf), (1, conf_offset example_conf), (2, conf_offset example_conf)]"
proof -
  have m5: "strtoll ''-5'' = - 5"
    by (simp add: strtoll_def strtoll_digits_def strtoll_negative_def isspace_def isdigit_def
        digit_val_def LLONG_MIN_def LLONG_MAX_def)
  have lo: "LLONG_MIN \<le> - 5" and hi: "- 5 \<le> LLONG_MAX"
    by (simp_all add: LLONG_MIN_def LLONG_MAX_def)
  have kw: "''-5'' \<notin> {''end'', ''beginning'', ''stored''}"
    by simp
  from offset_resolution[OF lo hi kw example_start]
  show ?thesis
    by (simp add: m5 LLONG_MIN_def part_eof_setup_def init_state_def example_conf_def
        RD_KAFKA_PARTITION_UA_def)
qed

end
